theory Spec2Isabelle
  imports Main "HOL-Library.Multiset"
begin

section \<open>Python exceptions\<close>

text \<open>
  The exceptions that \<^verbatim>\<open>_concurrent.py\<close> tells apart. Python's hierarchy puts
  \<^verbatim>\<open>KeyboardInterrupt\<close>, \<^verbatim>\<open>SystemExit\<close> and \<^verbatim>\<open>GeneratorExit\<close> directly under
  \<^verbatim>\<open>BaseException\<close>; every other class here derives from \<^verbatim>\<open>Exception\<close>, so a clause
  \<^verbatim>\<open>except Exception\<close> catches exactly those.
\<close>

datatype exn =
    KeyboardInterrupt
  | SystemExit
  | GeneratorExit
  | StopIteration
  | TypeError
  | AttributeError
  | RuntimeError string

fun isinstance_Exception :: "exn \<Rightarrow> bool" where
  "isinstance_Exception KeyboardInterrupt = False"
| "isinstance_Exception SystemExit = False"
| "isinstance_Exception GeneratorExit = False"
| "isinstance_Exception StopIteration = True"
| "isinstance_Exception TypeError = True"
| "isinstance_Exception AttributeError = True"
| "isinstance_Exception (RuntimeError m) = True"

section \<open>The log listener\<close>

text \<open>
  A \<^verbatim>\<open>logging.LogRecord\<close> as far as the listener reads it, and what a worker can put
  on the queue: \<^verbatim>\<open>None\<close> (the sentinel), a record, or any other object, which has no
  attribute \<^verbatim>\<open>name\<close>.
\<close>

record log_record =
  name :: string
  levelno :: nat
  msg :: string

datatype queue_item = PyNone | LogRecord log_record | PyObject string

datatype stderr_line = Print string | PrintExc exn

text \<open>
  What the listener has done so far: the calls \<^verbatim>\<open>logger.handle(record)\<close> it made, each
  with the name the logger was looked up by, and what it wrote to \<^verbatim>\<open>sys.stderr\<close>.
\<close>

record relay =
  handled :: "(string \<times> log_record) list"
  stderr :: "stderr_line list"

text \<open>
  How the thread stands once the given messages are consumed: it left the loop at a
  sentinel (the messages behind it stay in the queue), it is blocked in
  \<^verbatim>\<open>queue.get()\<close>, or an exception that \<^verbatim>\<open>except Exception\<close> does not catch ended it.
\<close>

datatype listener_status = Exited "queue_item list" | Waiting | Died exn

text \<open>
  \<^verbatim>\<open>log_listener(queue)\<close>, lines 42-53. The queue is the list of messages in the order
  \<^verbatim>\<open>queue.get()\<close> returns them; \<open>getLogger\<close> is \<^verbatim>\<open>logging.getLogger\<close>, a logger being
  its \<^verbatim>\<open>handle\<close> method, which returns normally (\<open>None\<close>) or raises.
\<close>

fun log_listener ::
  "(string \<Rightarrow> log_record \<Rightarrow> exn option) \<Rightarrow> queue_item list \<Rightarrow> relay \<Rightarrow> listener_status \<times> relay"
where
  "log_listener getLogger [] s = (Waiting, s)"
| "log_listener getLogger (PyNone # queue) s = (Exited queue, s)"
| "log_listener getLogger (LogRecord r # queue) s =
     (let s' = s\<lparr>handled := handled s @ [(name r, r)]\<rparr> in
      case getLogger (name r) r of
        None \<Rightarrow> log_listener getLogger queue s'
      | Some e \<Rightarrow>
          if isinstance_Exception e
          then log_listener getLogger queue
                 (s'\<lparr>stderr := stderr s' @ [Print ''Logging problem'', PrintExc e]\<rparr>)
          else (Died e, s'))"
| "log_listener getLogger (PyObject obj # queue) s =
     log_listener getLogger queue
       (s\<lparr>stderr := stderr s @ [Print ''Logging problem'', PrintExc AttributeError]\<rparr>)"

text \<open>The records among some messages, in order.\<close>

fun records :: "queue_item list \<Rightarrow> log_record list" where
  "records [] = []"
| "records (LogRecord r # q) = r # records q"
| "records (x # q) = records q"

section \<open>The pool executor\<close>

datatype pool_class = ThreadPool | ProcessPool

text \<open>
  The calls \<^verbatim>\<open>exec_progress_pool\<close> makes on its collaborators, one event per call:
  the queue (line 67), the listener thread (68, 74, 110), the progress bar (entering
  and leaving the \<^verbatim>\<open>with\<close> statement of line 76), the pool (77, 83, 92, 102, 107, 108),
  the sentinel (106) and the callback (87).
\<close>

datatype 'r event =
    MakeQueue
  | MakeThread
  | ListenerStart
  | TqdmEnter
  | MakePool pool_class nat
  | ImapUnordered
  | TaskFinished 'r
  | PoolTerminate
  | PutNowaitNone
  | PoolClose
  | PoolJoin
  | TqdmExit
  | ListenerJoin

text \<open>The state of a call: the events so far and the bar's counter \<^verbatim>\<open>pbar.n\<close>.\<close>

record 'r run =
  trace :: "'r event list"
  pbar_n :: nat

definition log :: "'r run \<Rightarrow> 'r event list \<Rightarrow> 'r run" where
  "log s es = s\<lparr>trace := trace s @ es\<rparr>"

text \<open>
  What the call does not decide: the process environment, the order in which the pool
  completes the submitted tasks, and the wait (counted from 0) during which Ctrl-C
  reaches the control thread, if it does.
\<close>

record world =
  environ :: "string \<rightharpoonup> string"
  completion_order :: "nat list"
  sigint :: "nat option"

definition environ_get :: "(string \<rightharpoonup> string) \<Rightarrow> string \<Rightarrow> string \<Rightarrow> string" where
  "environ_get env key dflt = (case env key of None \<Rightarrow> dflt | Some v \<Rightarrow> v)"

text \<open>
  The order of completion. Each number of the schedule picks one of the tasks still
  outstanding (modulo their count), so every schedule gives a rearrangement of the
  inputs and every rearrangement has a schedule.
\<close>

function arrival :: "nat list \<Rightarrow> 'a list \<Rightarrow> 'a list" where
  "arrival ns [] = []"
| "arrival [] (x # xs) = x # xs"
| "arrival (n # ns) (x # xs) =
     (x # xs) ! (n mod Suc (length xs))
       # arrival ns (take (n mod Suc (length xs)) (x # xs) @ drop (Suc (n mod Suc (length xs))) (x # xs))"
  by pat_completeness auto
termination
  by (relation "measure (\<lambda>(ns, xs). length xs)") auto

text \<open>
  \<^verbatim>\<open>pool.imap_unordered(task, task_arguments)\<close> as the control thread sees it: what the
  successive calls of \<^verbatim>\<open>results.next()\<close> return (\<open>Inr\<close>) or raise (\<open>Inl\<close>), a task's
  exception being raised by the call that would have returned its result. Past the end
  of the list \<^verbatim>\<open>next()\<close> raises \<^verbatim>\<open>StopIteration\<close>. An interrupt during wait \<open>j\<close> makes
  that call raise \<^verbatim>\<open>KeyboardInterrupt\<close>.
\<close>

definition imap_unordered :: "('a \<Rightarrow> exn + 'r) \<Rightarrow> 'a list \<Rightarrow> world \<Rightarrow> (exn + 'r) list" where
  "imap_unordered task task_arguments w =
     (let completions = map task (arrival (completion_order w) task_arguments) in
      case sigint w of
        None \<Rightarrow> completions
      | Some j \<Rightarrow>
          if j < length completions then take j completions @ [Inl KeyboardInterrupt]
          else completions)"

datatype loop_exit = Break | Raise exn

text \<open>
  The loop of lines 84-89. The callback \<^verbatim>\<open>task_finished(result, pbar)\<close> is given the
  result and the bar; it returns or raises, and leaves the bar's counter at some value.
  \<^verbatim>\<open>except StopIteration: break\<close> guards both statements of the loop body.
\<close>

fun completion_loop ::
  "('r \<Rightarrow> nat \<Rightarrow> exn option \<times> nat) \<Rightarrow> (exn + 'r) list \<Rightarrow> 'r run \<Rightarrow> loop_exit \<times> 'r run"
where
  "completion_loop task_finished [] s = (Break, s)"
| "completion_loop task_finished (Inl e # results) s =
     (if e = StopIteration then (Break, s) else (Raise e, s))"
| "completion_loop task_finished (Inr result # results) s =
     (case task_finished result (pbar_n s) of
        (raised, k) \<Rightarrow>
          (let s' = (log s [TaskFinished result])\<lparr>pbar_n := k\<rparr> in
           case raised of
             None \<Rightarrow> completion_loop task_finished results s'
           | Some e \<Rightarrow> if e = StopIteration then (Break, s') else (Raise e, s')))"

text \<open>The state at the \<^verbatim>\<open>try\<close> of line 82: listener started, bar open, pool made.\<close>

definition pool_made :: "bool \<Rightarrow> nat \<Rightarrow> 'r run" where
  "pool_made use_threads max_workers =
     \<lparr>trace = [MakeQueue, MakeThread, ListenerStart, TqdmEnter,
               MakePool (if use_threads then ThreadPool else ProcessPool) max_workers],
      pbar_n = 0\<rparr>"

text \<open>The body of the \<^verbatim>\<open>try\<close>, lines 83-89.\<close>

definition try_body ::
  "('a \<Rightarrow> exn + 'r) \<Rightarrow> 'a list \<Rightarrow> ('r \<Rightarrow> nat \<Rightarrow> exn option \<times> nat) \<Rightarrow> world \<Rightarrow> 'r run
     \<Rightarrow> loop_exit \<times> 'r run"
where
  "try_body task task_arguments task_finished w s =
     completion_loop task_finished (imap_unordered task task_arguments w) (log s [ImapUnordered])"

text \<open>The \<^verbatim>\<open>except\<close> clauses of lines 90-103; both re-raise.\<close>

definition handlers :: "world \<Rightarrow> loop_exit \<Rightarrow> 'r run \<Rightarrow> 'r run" where
  "handlers w ex s =
     (case ex of
        Break \<Rightarrow> s
      | Raise e \<Rightarrow>
          if e = KeyboardInterrupt then log s [PoolTerminate]
          else if isinstance_Exception e then
            (if environ_get (environ w) ''PYTEST_CURRENT_TEST'' '''' = '''' then log s [PoolTerminate]
             else s)
          else s)"

datatype outcome = Returned | Raised exn

text \<open>
  \<^verbatim>\<open>exec_progress_pool\<close>, lines 56-110. \<open>task_initargs\<close> is \<^verbatim>\<open>None\<close> (the default) or a
  sequence; unpacking \<^verbatim>\<open>*task_initargs\<close> at line 80 raises \<^verbatim>\<open>TypeError\<close> on \<^verbatim>\<open>None\<close>,
  inside the \<^verbatim>\<open>with\<close> statement and before the \<^verbatim>\<open>try\<close>. \<open>tqdm_kwargs\<close> and
  \<open>task_initializer\<close> are handed on as they are.
\<close>

definition exec_progress_pool ::
  "bool \<Rightarrow> nat \<Rightarrow> 'kw \<Rightarrow> 'ini \<Rightarrow> 'ia list option \<Rightarrow> ('a \<Rightarrow> exn + 'r) \<Rightarrow> 'a list
     \<Rightarrow> ('r \<Rightarrow> nat \<Rightarrow> exn option \<times> nat) \<Rightarrow> world \<Rightarrow> outcome \<times> 'r run"
where
  "exec_progress_pool use_threads max_workers tqdm_kwargs task_initializer task_initargs
       task task_arguments task_finished w =
     (case task_initargs of
        None \<Rightarrow>
          (Raised TypeError,
           \<lparr>trace = [MakeQueue, MakeThread, ListenerStart, TqdmEnter, TqdmExit], pbar_n = 0\<rparr>)
      | Some initargs \<Rightarrow>
          (case try_body task task_arguments task_finished w (pool_made use_threads max_workers) of
             (ex, s) \<Rightarrow>
               (let s' = log (handlers w ex s) [PutNowaitNone, PoolClose, PoolJoin, TqdmExit] in
                case ex of
                  Break \<Rightarrow> (Returned, log s' [ListenerJoin])
                | Raise e \<Rightarrow> (Raised e, s'))))"

text \<open>The results the callback was called with, in the order of the calls.\<close>

fun delivered :: "'r event list \<Rightarrow> 'r list" where
  "delivered [] = []"
| "delivered (TaskFinished r # es) = r # delivered es"
| "delivered (e # es) = delivered es"

text \<open>
  The completions are all results and the callback returns normally on each of them,
  called with the bar's counter as the calls before it left it: \<open>Some\<close> of the counter
  after the last call, the counter starting at \<open>k\<close>. \<open>None\<close> when one of the completions
  is a task's exception or the callback raises on one of them.
\<close>

fun delivered_ok ::
  "('r \<Rightarrow> nat \<Rightarrow> exn option \<times> nat) \<Rightarrow> (exn + 'r) list \<Rightarrow> nat \<Rightarrow> nat option"
where
  "delivered_ok task_finished [] k = Some k"
| "delivered_ok task_finished (Inl e # completions) k = None"
| "delivered_ok task_finished (Inr result # completions) k =
     (case task_finished result k of
        (None, k') \<Rightarrow> delivered_ok task_finished completions k'
      | (Some e, k') \<Rightarrow> None)"

text \<open>\<open>precedes a b es\<close>: no \<open>b\<close> stands in \<open>es\<close> before the first \<open>a\<close>.\<close>

fun precedes :: "'e \<Rightarrow> 'e \<Rightarrow> 'e list \<Rightarrow> bool" where
  "precedes a b [] = True"
| "precedes a b (e # es) = (if e = a then True else e \<noteq> b \<and> precedes a b es)"

section \<open>Facts about the model\<close>

subsection \<open>Completion order and the completion loop\<close>

lemma mset_arrival: "mset (arrival ns xs) = mset xs"
proof (induction ns xs rule: arrival.induct)
  case (3 n ns x xs)
  let ?ys = "x # xs"
  let ?i = "n mod Suc (length xs)"
  have i: "?i < length ?ys" by simp
  have "mset ?ys = mset (take ?i ?ys @ ?ys ! ?i # drop (Suc ?i) ?ys)"
    using id_take_nth_drop [OF i] by simp
  then show ?case using 3 by simp
qed simp_all

lemma length_arrival: "length (arrival ns xs) = length xs"
  using mset_arrival [of ns xs] by (metis size_mset)

lemma delivered_append: "delivered (es @ fs) = delivered es @ delivered fs"
  by (induction es rule: delivered.induct) simp_all

lemma delivered_TaskFinished: "delivered (map TaskFinished rs) = rs"
  by (induction rs) simp_all

lemma completion_loop_no_raise:
  assumes "\<forall>x \<in> set xs. \<not> isl x" and "\<forall>r k. fst (task_finished r k) = None"
  shows "completion_loop task_finished xs s =
           (Break, \<lparr>trace = trace s @ map TaskFinished (map projr xs),
                    pbar_n = fold (\<lambda>r k. snd (task_finished r k)) (map projr xs) (pbar_n s)\<rparr>)"
  using assms(1)
proof (induction xs arbitrary: s)
  case Nil
  then show ?case by simp
next
  case (Cons x xs)
  then obtain r where x: "x = Inr r" by (cases x) auto
  obtain ex k where tf: "task_finished r (pbar_n s) = (ex, k)" by (cases "task_finished r (pbar_n s)")
  with assms(2) have ex: "ex = None" by (metis fst_conv)
  from Cons show ?case by (simp add: x tf ex log_def)
qed

lemma fold_Suc: "\<forall>r k. snd (task_finished r k) = Suc k \<Longrightarrow>
  fold (\<lambda>r k. snd (task_finished r k)) rs k0 = k0 + length rs"
  by (induction rs arbitrary: k0) simp_all

lemma completion_loop_trace:
  "completion_loop task_finished xs s = (ex, s') \<Longrightarrow>
     \<exists>rs. trace s' = trace s @ map TaskFinished rs"
proof (induction xs arbitrary: s)
  case Nil
  then show ?case by simp
next
  case (Cons x xs)
  show ?case
  proof (cases x)
    case (Inl e)
    with Cons.prems show ?thesis by (auto split: if_splits)
  next
    case (Inr r)
    obtain raised k where tf: "task_finished r (pbar_n s) = (raised, k)"
      by (cases "task_finished r (pbar_n s)")
    let ?s = "(log s [TaskFinished r])\<lparr>pbar_n := k\<rparr>"
    show ?thesis
    proof (cases raised)
      case None
      with Cons.prems Inr tf have "completion_loop task_finished xs ?s = (ex, s')" by simp
      from Cons.IH [OF this] obtain rs where "trace s' = trace ?s @ map TaskFinished rs" ..
      then have "trace s' = trace s @ map TaskFinished (r # rs)" by (simp add: log_def)
      then show ?thesis by blast
    next
      case (Some e)
      with Cons.prems Inr tf have "s' = ?s" by (auto simp: Let_def split: if_splits)
      then have "trace s' = trace s @ map TaskFinished [r]" by (simp add: log_def)
      then show ?thesis by blast
    qed
  qed
qed

lemma completion_loop_not_StopIteration:
  "fst (completion_loop task_finished xs s) \<noteq> Raise StopIteration"
  by (induction task_finished xs s rule: completion_loop.induct)
     (auto simp: Let_def split: prod.splits option.splits)

subsection \<open>The order of events\<close>

text \<open>\<open>precedes a b es\<close> says that every \<open>b\<close> in \<open>es\<close> has an \<open>a\<close> before it.\<close>

lemma precedes_iff:
  assumes "a \<noteq> b"
  shows "precedes a b es \<longleftrightarrow> (\<forall>j < length es. es ! j = b \<longrightarrow> (\<exists>i < j. es ! i = a))"
proof (induction es)
  case Nil
  then show ?case by simp
next
  case (Cons e es)
  show ?case
  proof (cases "e = a")
    case True
    have "\<exists>i < j. (e # es) ! i = a" if "(e # es) ! j = b" for j
    proof -
      from that True assms have "j \<noteq> 0" by (cases j) auto
      with True show ?thesis by (intro exI [of _ 0]) simp
    qed
    with True show ?thesis by simp
  next
    case False
    have "(\<forall>j < length (e # es). (e # es) ! j = b \<longrightarrow> (\<exists>i < j. (e # es) ! i = a))
      \<longleftrightarrow> e \<noteq> b \<and> (\<forall>j < length es. es ! j = b \<longrightarrow> (\<exists>i < j. es ! i = a))"
      (is "?L \<longleftrightarrow> ?R")
    proof
      assume l: ?L
      from l [rule_format, of 0] have "e \<noteq> b" by auto
      moreover have "\<exists>i < j. es ! i = a" if "j < length es" "es ! j = b" for j
      proof -
        from l [rule_format, of "Suc j"] that obtain i where "i < Suc j" "(e # es) ! i = a"
          by auto
        with False show ?thesis by (cases i) auto
      qed
      ultimately show ?R by blast
    next
      assume r: ?R
      show ?L
      proof (intro allI impI)
        fix j assume "j < length (e # es)" "(e # es) ! j = b"
        with r obtain j' where j: "j = Suc j'" "j' < length es" "es ! j' = b"
          by (cases j) auto
        with r obtain i where "i < j'" "es ! i = a" by blast
        with j show "\<exists>i < j. (e # es) ! i = a" by (intro exI [of _ "Suc i"]) simp
      qed
    qed
    with False Cons show ?thesis by simp
  qed
qed

subsection \<open>The shape of a run\<close>

lemma try_body_trace:
  assumes "try_body task task_arguments task_finished w s = (ex, s')"
  shows "\<exists>rs. trace s' = trace s @ ImapUnordered # map TaskFinished rs"
proof -
  from assms have "completion_loop task_finished (imap_unordered task task_arguments w)
      (log s [ImapUnordered]) = (ex, s')"
    by (simp add: try_body_def)
  from completion_loop_trace [OF this] show ?thesis by (simp add: log_def)
qed

lemma try_body_not_StopIteration:
  "fst (try_body task task_arguments task_finished w s) \<noteq> Raise StopIteration"
  by (simp add: try_body_def completion_loop_not_StopIteration)

lemma exec_progress_pool_Some:
  assumes "try_body task task_arguments task_finished w (pool_made use_threads max_workers) = (ex, s)"
  shows "exec_progress_pool use_threads max_workers tqdm_kwargs task_initializer (Some initargs)
           task task_arguments task_finished w =
         ((case ex of Break \<Rightarrow> Returned | Raise e \<Rightarrow> Raised e),
          \<lparr>trace = trace (handlers w ex s) @ [PutNowaitNone, PoolClose, PoolJoin, TqdmExit]
                    @ (case ex of Break \<Rightarrow> [ListenerJoin] | Raise e \<Rightarrow> []),
           pbar_n = pbar_n (handlers w ex s)\<rparr>)"
  by (cases ex) (simp_all add: exec_progress_pool_def assms log_def)

lemma delivered_shape:
  "delivered ([MakeQueue, MakeThread, ListenerStart, TqdmEnter, MakePool pc n, ImapUnordered]
      @ map TaskFinished rs @ es) = rs @ delivered es"
  by (simp add: delivered_append delivered_TaskFinished)

lemma precedes_TaskFinished:
  "\<forall>r. TaskFinished r \<noteq> a \<Longrightarrow> \<forall>r. TaskFinished r \<noteq> b \<Longrightarrow>
     precedes a b (map TaskFinished rs @ es) = precedes a b es"
  by (induction rs) simp_all

text \<open>Where an exception that leaves the loop comes from.\<close>

lemma completion_loop_Raise:
  "fst (completion_loop task_finished xs s) = Raise e \<Longrightarrow>
     Inl e \<in> set xs \<or> (\<exists>r k. fst (task_finished r k) = Some e)"
proof (induction task_finished xs s rule: completion_loop.induct)
  case (1 task_finished s)
  then show ?case by simp
next
  case (2 task_finished e' results s)
  then show ?case by (auto split: if_splits)
next
  case (3 task_finished result results s)
  obtain raised k where tf: "task_finished result (pbar_n s) = (raised, k)"
    by (cases "task_finished result (pbar_n s)")
  show ?case
  proof (cases raised)
    case None
    with 3 tf show ?thesis by (auto simp: Let_def)
  next
    case (Some e')
    with 3(2) tf have "e' = e" by (auto simp: Let_def split: if_splits)
    with Some tf have "fst (task_finished result (pbar_n s)) = Some e" by simp
    then show ?thesis by blast
  qed
qed

lemma exec_progress_pool_on_Raise:
  fixes task :: "'a \<Rightarrow> exn + 'r" and initargs :: "'ia list"
    and tqdm_kwargs :: 'kw and task_initializer :: 'ini
    and use_threads max_workers task_arguments task_finished w
  defines "run \<equiv> exec_progress_pool use_threads max_workers tqdm_kwargs task_initializer
                    (Some initargs) task task_arguments task_finished w"
  assumes "fst (try_body task task_arguments task_finished w (pool_made use_threads max_workers)) = Raise e"
  shows "fst run = Raised e"
    and "trace (snd run) =
           [MakeQueue, MakeThread, ListenerStart, TqdmEnter,
            MakePool (if use_threads then ThreadPool else ProcessPool) max_workers, ImapUnordered]
           @ map TaskFinished (delivered (trace (snd run)))
           @ (if e = KeyboardInterrupt
                 \<or> isinstance_Exception e \<and> environ_get (environ w) ''PYTEST_CURRENT_TEST'' '''' = ''''
              then [PoolTerminate] else [])
           @ [PutNowaitNone, PoolClose, PoolJoin, TqdmExit]"
proof -
  obtain s where body: "try_body task task_arguments task_finished w (pool_made use_threads max_workers)
      = (Raise e, s)"
    using assms(2) by (metis prod.collapse)
  from try_body_trace [OF body] obtain rs where
    s: "trace s = trace (pool_made use_threads max_workers :: 'r run) @ ImapUnordered # map TaskFinished rs" ..
  have run: "run = (Raised e,
      \<lparr>trace = trace (handlers w (Raise e) s) @ [PutNowaitNone, PoolClose, PoolJoin, TqdmExit],
       pbar_n = pbar_n (handlers w (Raise e) s)\<rparr>)"
    unfolding run_def using exec_progress_pool_Some [OF body] by simp
  show "fst run = Raised e" by (simp add: run)
  let ?t = "if e = KeyboardInterrupt
                 \<or> isinstance_Exception e \<and> environ_get (environ w) ''PYTEST_CURRENT_TEST'' '''' = ''''
              then [PoolTerminate] else []"
  have h: "trace (handlers w (Raise e) s) = trace s @ ?t"
    by (cases e) (simp_all add: handlers_def log_def)
  have tr: "trace (snd run) =
           [MakeQueue, MakeThread, ListenerStart, TqdmEnter,
            MakePool (if use_threads then ThreadPool else ProcessPool) max_workers, ImapUnordered]
           @ map TaskFinished rs @ ?t @ [PutNowaitNone, PoolClose, PoolJoin, TqdmExit]"
    by (simp add: run h s pool_made_def)
  have "delivered (trace (snd run)) = rs"
    unfolding tr delivered_shape by simp
  with tr show "trace (snd run) =
           [MakeQueue, MakeThread, ListenerStart, TqdmEnter,
            MakePool (if use_threads then ThreadPool else ProcessPool) max_workers, ImapUnordered]
           @ map TaskFinished (delivered (trace (snd run))) @ ?t
           @ [PutNowaitNone, PoolClose, PoolJoin, TqdmExit]"
    by simp
qed

lemma exec_progress_pool_on_Break:
  fixes task :: "'a \<Rightarrow> exn + 'r" and initargs :: "'ia list"
    and tqdm_kwargs :: 'kw and task_initializer :: 'ini
    and use_threads max_workers task_arguments task_finished w
  defines "run \<equiv> exec_progress_pool use_threads max_workers tqdm_kwargs task_initializer
                    (Some initargs) task task_arguments task_finished w"
  assumes "fst (try_body task task_arguments task_finished w (pool_made use_threads max_workers)) = Break"
  shows "fst run = Returned"
    and "trace (snd run) =
           [MakeQueue, MakeThread, ListenerStart, TqdmEnter,
            MakePool (if use_threads then ThreadPool else ProcessPool) max_workers, ImapUnordered]
           @ map TaskFinished (delivered (trace (snd run)))
           @ [PutNowaitNone, PoolClose, PoolJoin, TqdmExit, ListenerJoin]"
proof -
  obtain s where body: "try_body task task_arguments task_finished w (pool_made use_threads max_workers)
      = (Break, s)"
    using assms(2) by (metis prod.collapse)
  from try_body_trace [OF body] obtain rs where
    s: "trace s = trace (pool_made use_threads max_workers :: 'r run) @ ImapUnordered # map TaskFinished rs" ..
  have run: "run = (Returned,
      \<lparr>trace = trace s @ [PutNowaitNone, PoolClose, PoolJoin, TqdmExit, ListenerJoin],
       pbar_n = pbar_n s\<rparr>)"
    unfolding run_def using exec_progress_pool_Some [OF body] by (simp add: handlers_def)
  show "fst run = Returned" by (simp add: run)
  have tr: "trace (snd run) =
           [MakeQueue, MakeThread, ListenerStart, TqdmEnter,
            MakePool (if use_threads then ThreadPool else ProcessPool) max_workers, ImapUnordered]
           @ map TaskFinished rs @ [PutNowaitNone, PoolClose, PoolJoin, TqdmExit, ListenerJoin]"
    by (simp add: run s pool_made_def)
  have "delivered (trace (snd run)) = rs"
    unfolding tr delivered_shape by simp
  with tr show "trace (snd run) =
           [MakeQueue, MakeThread, ListenerStart, TqdmEnter,
            MakePool (if use_threads then ThreadPool else ProcessPool) max_workers, ImapUnordered]
           @ map TaskFinished (delivered (trace (snd run)))
           @ [PutNowaitNone, PoolClose, PoolJoin, TqdmExit, ListenerJoin]"
    by simp
qed

lemma completion_loop_delivered_ok:
  "delivered_ok task_finished pre (pbar_n s) = Some k \<Longrightarrow>
     completion_loop task_finished (pre @ post) s =
       completion_loop task_finished post
         (s\<lparr>trace := trace s @ map TaskFinished (map projr pre), pbar_n := k\<rparr>)"
proof (induction pre arbitrary: s)
  case Nil
  then have "s\<lparr>trace := trace s @ map TaskFinished (map projr []), pbar_n := k\<rparr> = s" by simp
  then show ?case by simp
next
  case (Cons x pre)
  from Cons.prems obtain r where x: "x = Inr r" by (cases x) auto
  obtain ex k' where tf: "task_finished r (pbar_n s) = (ex, k')"
    by (cases "task_finished r (pbar_n s)")
  with Cons.prems x have ex: "ex = None" and rest: "delivered_ok task_finished pre k' = Some k"
    by (auto split: option.splits)
  let ?s = "(log s [TaskFinished r])\<lparr>pbar_n := k'\<rparr>"
  from rest have "delivered_ok task_finished pre (pbar_n ?s) = Some k" by simp
  from Cons.IH [OF this] show ?case by (simp add: x tf ex log_def)
qed

lemma imap_unordered_upto:
  assumes "i < length task_arguments" and "\<forall>j. sigint w = Some j \<longrightarrow> i < j"
  shows "\<exists>rest. imap_unordered task task_arguments w =
           map task (take i (arrival (completion_order w) task_arguments))
             @ task (arrival (completion_order w) task_arguments ! i) # rest"
proof -
  let ?order = "arrival (completion_order w) task_arguments"
  let ?cs = "map task ?order"
  have i: "i < length ?cs" using assms(1) by (simp add: length_arrival)
  have split: "\<And>n. i < n \<Longrightarrow> take n ?cs = map task (take i ?order) @ task (?order ! i) # drop (Suc i) (take n ?cs)"
  proof -
    fix n assume n: "i < n"
    with i have "i < length (take n ?cs)" by simp
    from id_take_nth_drop [OF this] n i show "take n ?cs = map task (take i ?order) @ task (?order ! i) # drop (Suc i) (take n ?cs)"
      by (simp add: take_map min_def)
  qed
  show ?thesis
  proof (cases "sigint w")
    case None
    then have "imap_unordered task task_arguments w = take (length ?cs) ?cs"
      by (simp add: imap_unordered_def)
    with split [of "length ?cs"] i show ?thesis by metis
  next
    case (Some j)
    with assms(2) have j: "i < j" by simp
    show ?thesis
    proof (cases "j < length ?cs")
      case True
      with Some have "imap_unordered task task_arguments w = take j ?cs @ [Inl KeyboardInterrupt]"
        by (simp add: imap_unordered_def)
      with split [OF j] show ?thesis by (metis append_Cons append_assoc)
    next
      case False
      with Some have "imap_unordered task task_arguments w = take (length ?cs) ?cs"
        by (simp add: imap_unordered_def)
      with split [of "length ?cs"] i show ?thesis by metis
    qed
  qed
qed

lemma run_trace_cases:
  fixes task :: "'a \<Rightarrow> exn + 'r" and initargs :: "'ia list"
    and tqdm_kwargs :: 'kw and task_initializer :: 'ini
    and use_threads max_workers task_arguments task_finished w
  defines "run \<equiv> exec_progress_pool use_threads max_workers tqdm_kwargs task_initializer
                    (Some initargs) task task_arguments task_finished w"
  obtains rs where "fst run = Returned"
      and "trace (snd run) =
        [MakeQueue, MakeThread, ListenerStart, TqdmEnter,
         MakePool (if use_threads then ThreadPool else ProcessPool) max_workers, ImapUnordered]
        @ map TaskFinished rs @ [PutNowaitNone, PoolClose, PoolJoin, TqdmExit, ListenerJoin]"
  | rs e where "fst run = Raised e"
      and "trace (snd run) =
        [MakeQueue, MakeThread, ListenerStart, TqdmEnter,
         MakePool (if use_threads then ThreadPool else ProcessPool) max_workers, ImapUnordered]
        @ map TaskFinished rs @ [PoolTerminate, PutNowaitNone, PoolClose, PoolJoin, TqdmExit]"
  | rs e where "fst run = Raised e"
      and "trace (snd run) =
        [MakeQueue, MakeThread, ListenerStart, TqdmEnter,
         MakePool (if use_threads then ThreadPool else ProcessPool) max_workers, ImapUnordered]
        @ map TaskFinished rs @ [PutNowaitNone, PoolClose, PoolJoin, TqdmExit]"
proof (cases "fst (try_body task task_arguments task_finished w (pool_made use_threads max_workers))")
  case Break
  from exec_progress_pool_on_Break [OF this, of tqdm_kwargs task_initializer initargs]
  show ?thesis using that(1) unfolding run_def by blast
next
  case (Raise e)
  note r = exec_progress_pool_on_Raise [OF this, of tqdm_kwargs task_initializer initargs,
      unfolded run_def [symmetric]]
  show ?thesis
  proof (cases "e = KeyboardInterrupt
        \<or> isinstance_Exception e \<and> environ_get (environ w) ''PYTEST_CURRENT_TEST'' '''' = ''''")
    case True
    with r(2) have "trace (snd run) =
        [MakeQueue, MakeThread, ListenerStart, TqdmEnter,
         MakePool (if use_threads then ThreadPool else ProcessPool) max_workers, ImapUnordered]
        @ map TaskFinished (delivered (trace (snd run)))
        @ [PoolTerminate, PutNowaitNone, PoolClose, PoolJoin, TqdmExit]" by simp
    with r(1) show ?thesis using that(2) by blast
  next
    case False
    with r(2) have "trace (snd run) =
        [MakeQueue, MakeThread, ListenerStart, TqdmEnter,
         MakePool (if use_threads then ThreadPool else ProcessPool) max_workers, ImapUnordered]
        @ map TaskFinished (delivered (trace (snd run)))
        @ [PutNowaitNone, PoolClose, PoolJoin, TqdmExit]" by simp
    with r(1) show ?thesis using that(3) by blast
  qed
qed

text \<open>Once the pool is made, every way out of the call runs the same cleanup, once.\<close>

lemma cleanup_once_pool_is_made:
  fixes task :: "'a \<Rightarrow> exn + 'r" and initargs :: "'ia list"
    and tqdm_kwargs :: 'kw and task_initializer :: 'ini
    and use_threads max_workers task_arguments task_finished w
  defines "run \<equiv> exec_progress_pool use_threads max_workers tqdm_kwargs task_initializer
                    (Some initargs) task task_arguments task_finished w"
  shows "count_list (trace (snd run)) TqdmExit = 1
       \<and> count_list (trace (snd run)) PutNowaitNone = 1
       \<and> count_list (trace (snd run)) PoolClose = 1
       \<and> count_list (trace (snd run)) PoolJoin = 1
       \<and> precedes PutNowaitNone TqdmExit (trace (snd run))
       \<and> precedes PoolJoin TqdmExit (trace (snd run))"
proof -
  have cnt: "\<And>rs (a :: 'r event). \<forall>r. TaskFinished r \<noteq> a \<Longrightarrow> count_list (map TaskFinished rs) a = 0"
    by (induct_tac rs) auto
  obtain rs post where tr: "trace (snd run) =
      [MakeQueue, MakeThread, ListenerStart, TqdmEnter,
       MakePool (if use_threads then ThreadPool else ProcessPool) max_workers, ImapUnordered]
      @ map TaskFinished rs @ post"
    and post: "post = [PutNowaitNone, PoolClose, PoolJoin, TqdmExit, ListenerJoin]
             \<or> post = [PoolTerminate, PutNowaitNone, PoolClose, PoolJoin, TqdmExit]
             \<or> post = [PutNowaitNone, PoolClose, PoolJoin, TqdmExit]"
  proof (cases "fst (try_body task task_arguments task_finished w (pool_made use_threads max_workers))")
    case Break
    from exec_progress_pool_on_Break(2) [OF this, of tqdm_kwargs task_initializer initargs]
    show ?thesis using that unfolding run_def by blast
  next
    case (Raise e)
    from exec_progress_pool_on_Raise(2) [OF this, of tqdm_kwargs task_initializer initargs]
    show ?thesis using that unfolding run_def by (cases "e = KeyboardInterrupt
        \<or> isinstance_Exception e \<and> environ_get (environ w) ''PYTEST_CURRENT_TEST'' '''' = ''''")
        simp_all
  qed
  from post show ?thesis
    unfolding tr by (auto simp: cnt precedes_TaskFinished)
qed

subsection \<open>The log listener\<close>

lemma log_listener_prefix:
  assumes errors: "\<forall>nm x e. getLogger nm x = Some e \<longrightarrow> isinstance_Exception e"
    and "PyNone \<notin> set pre"
  shows "log_listener getLogger (pre @ queue) s =
           log_listener getLogger queue (snd (log_listener getLogger pre s))"
  using assms(2)
proof (induction pre arbitrary: s)
  case Nil
  then show ?case by simp
next
  case (Cons item pre)
  show ?case
  proof (cases item)
    case PyNone
    with Cons.prems show ?thesis by simp
  next
    case (LogRecord r)
    show ?thesis
    proof (cases "getLogger (name r) r")
      case None
      with Cons LogRecord show ?thesis by (simp add: Let_def)
    next
      case (Some e)
      with errors have "isinstance_Exception e" by blast
      with Cons LogRecord Some show ?thesis by (simp add: Let_def)
    qed
  next
    case (PyObject obj)
    with Cons show ?thesis by simp
  qed
qed

lemma log_listener_run:
  assumes errors: "\<forall>nm x e. getLogger nm x = Some e \<longrightarrow> isinstance_Exception e"
  shows "handled (snd (log_listener getLogger queue s)) =
           handled s @ map (\<lambda>r. (name r, r)) (records (takeWhile (\<lambda>x. x \<noteq> PyNone) queue))
       \<and> fst (log_listener getLogger queue s) =
           (case dropWhile (\<lambda>x. x \<noteq> PyNone) queue of
              [] \<Rightarrow> Waiting
            | x # behind \<Rightarrow> Exited behind)"
proof (induction queue arbitrary: s)
  case Nil
  then show ?case by simp
next
  case (Cons item queue)
  show ?case
  proof (cases item)
    case PyNone
    then show ?thesis by simp
  next
    case (LogRecord r)
    show ?thesis
    proof (cases "getLogger (name r) r")
      case None
      with Cons LogRecord show ?thesis by (simp add: Let_def)
    next
      case (Some e)
      with errors have "isinstance_Exception e" by blast
      with Cons LogRecord Some show ?thesis by (simp add: Let_def)
    qed
  next
    case (PyObject obj)
    with Cons show ?thesis by simp
  qed
qed

section \<open>The claims\<close>

subsection \<open>C1: every result reaches the callback\<close>

text \<open>
  C1, as far as the code goes. Let the pool be made (\<open>task_initargs\<close> is a sequence), let
  no interrupt arrive, no task raise and the callback never raise. Then for every input
  sequence and every completion order the call returns normally, the loop having left
  through \<^verbatim>\<open>StopIteration\<close>; the callback was called once per input, with exactly the
  tasks' results; and the bar's counter is what the callbacks made of it, starting from
  0: it is the number of inputs when each call of the callback advances it by one. The
  executor never advances the counter itself.
\<close>

theorem exec_progress_pool_delivers_all:
  fixes task :: "'a \<Rightarrow> exn + 'r" and initargs :: "'ia list"
    and tqdm_kwargs :: 'kw and task_initializer :: 'ini
    and use_threads max_workers task_arguments task_finished w
  defines "run \<equiv> exec_progress_pool use_threads max_workers tqdm_kwargs task_initializer
                    (Some initargs) task task_arguments task_finished w"
  assumes no_sigint: "sigint w = None"
    and no_task_raises: "\<forall>a \<in> set task_arguments. \<not> isl (task a)"
    and no_callback_raises: "\<forall>r k. fst (task_finished r k) = None"
  shows "fst run = Returned
       \<and> fst (try_body task task_arguments task_finished w (pool_made use_threads max_workers)) = Break
       \<and> length (delivered (trace (snd run))) = length task_arguments
       \<and> mset (map Inr (delivered (trace (snd run)))) = mset (map task task_arguments)
       \<and> pbar_n (snd run) = fold (\<lambda>r k. snd (task_finished r k)) (delivered (trace (snd run))) 0
       \<and> ((\<forall>r k. snd (task_finished r k) = Suc k) \<longrightarrow> pbar_n (snd run) = length task_arguments)"
proof -
  let ?xs = "map task (arrival (completion_order w) task_arguments)"
  let ?rs = "map projr ?xs"
  have im: "imap_unordered task task_arguments w = ?xs"
    by (simp add: imap_unordered_def no_sigint)
  have "set (arrival (completion_order w) task_arguments) = set task_arguments"
    using mset_arrival [of "completion_order w" task_arguments] by (metis set_mset_mset)
  with no_task_raises have ok: "\<forall>x \<in> set ?xs. \<not> isl x" by auto
  have body: "try_body task task_arguments task_finished w (pool_made use_threads max_workers) =
      (Break, \<lparr>trace = trace (pool_made use_threads max_workers) @ ImapUnordered # map TaskFinished ?rs,
               pbar_n = fold (\<lambda>r k. snd (task_finished r k)) ?rs 0\<rparr>)"
    unfolding try_body_def im
    by (simp add: completion_loop_no_raise [OF ok no_callback_raises] log_def pool_made_def)
  have run: "run = (Returned,
      \<lparr>trace = trace (pool_made use_threads max_workers) @ ImapUnordered # map TaskFinished ?rs
                @ [PutNowaitNone, PoolClose, PoolJoin, TqdmExit, ListenerJoin],
       pbar_n = fold (\<lambda>r k. snd (task_finished r k)) ?rs 0\<rparr>)"
    unfolding run_def exec_progress_pool_def by (simp add: body handlers_def log_def)
  have del: "delivered (trace (snd run)) = ?rs"
    by (simp add: run pool_made_def delivered_append delivered_TaskFinished del: map_map)
  have again: "map Inr ?rs = ?xs"
    using ok by (simp add: map_idI)
  have m: "mset (map Inr ?rs) = mset (map task task_arguments)"
    unfolding again using mset_arrival [of "completion_order w" task_arguments] by (metis mset_map)
  have len: "length ?rs = length task_arguments" by (simp add: length_arrival)
  have pb: "pbar_n (snd run) = fold (\<lambda>r k. snd (task_finished r k)) ?rs 0"
    by (simp add: run)
  have c1: "fst run = Returned" by (simp add: run)
  have c2: "fst (try_body task task_arguments task_finished w (pool_made use_threads max_workers)) = Break"
    by (simp add: body)
  have c3: "length (delivered (trace (snd run))) = length task_arguments"
    unfolding del by (rule len)
  have c4: "mset (map Inr (delivered (trace (snd run)))) = mset (map task task_arguments)"
    unfolding del by (rule m)
  have c5: "pbar_n (snd run) = fold (\<lambda>r k. snd (task_finished r k)) (delivered (trace (snd run))) 0"
    unfolding del by (rule pb)
  have c6: "(\<forall>r k. snd (task_finished r k) = Suc k) \<longrightarrow> pbar_n (snd run) = length task_arguments"
  proof
    assume "\<forall>r k. snd (task_finished r k) = Suc k"
    from fold_Suc [OF this, of ?rs 0] show "pbar_n (snd run) = length task_arguments"
      unfolding pb using len by simp
  qed
  from c1 c2 c3 c4 c5 c6 show ?thesis by blast
qed

theorem exec_progress_pool_delivers_all_witness:
  "fst (exec_progress_pool False 4 () () (Some [()]) (\<lambda>x. Inr (x * x)) [1, 2, 3, 4, 5 :: nat]
          (\<lambda>r k. (None, Suc k))
          \<lparr>environ = Map.empty, completion_order = [3, 0, 1], sigint = None\<rparr>) = Returned
   \<and> length (delivered (trace (snd (exec_progress_pool False 4 () () (Some [()]) (\<lambda>x. Inr (x * x))
          [1, 2, 3, 4, 5 :: nat] (\<lambda>r k. (None, Suc k))
          \<lparr>environ = Map.empty, completion_order = [3, 0, 1], sigint = None\<rparr>)))) = 5
   \<and> pbar_n (snd (exec_progress_pool False 4 () () (Some [()]) (\<lambda>x. Inr (x * x)) [1, 2, 3, 4, 5 :: nat]
          (\<lambda>r k. (None, Suc k))
          \<lparr>environ = Map.empty, completion_order = [3, 0, 1], sigint = None\<rparr>)) = 5"
  using exec_progress_pool_delivers_all [where w = "\<lparr>environ = Map.empty, completion_order = [3, 0, 1], sigint = None\<rparr>"
      and task_arguments = "[1, 2, 3, 4, 5 :: nat]" and task = "\<lambda>x. Inr (x * x)"
      and task_finished = "\<lambda>r k. (None, Suc k)" and use_threads = False and max_workers = 4
      and tqdm_kwargs = "()" and task_initializer = "()" and initargs = "[()]"]
  by simp

text \<open>
  C1 as stated promises the count whatever the callback does. A callback that leaves the
  bar alone is called five times for five inputs, and the counter stays at 0.
\<close>

theorem progress_left_to_callback:
  "fst (exec_progress_pool False 4 () () (Some [()]) (\<lambda>x. Inr (x * x)) [1, 2, 3, 4, 5 :: nat]
          (\<lambda>r k. (None, k))
          \<lparr>environ = Map.empty, completion_order = [3, 0, 1], sigint = None\<rparr>) = Returned
   \<and> delivered (trace (snd (exec_progress_pool False 4 () () (Some [()]) (\<lambda>x. Inr (x * x))
          [1, 2, 3, 4, 5 :: nat] (\<lambda>r k. (None, k))
          \<lparr>environ = Map.empty, completion_order = [3, 0, 1], sigint = None\<rparr>))) = [16, 1, 9, 4, 25]
   \<and> pbar_n (snd (exec_progress_pool False 4 () () (Some [()]) (\<lambda>x. Inr (x * x)) [1, 2, 3, 4, 5 :: nat]
          (\<lambda>r k. (None, k))
          \<lparr>environ = Map.empty, completion_order = [3, 0, 1], sigint = None\<rparr>)) = 0"
  by (simp add: exec_progress_pool_def try_body_def imap_unordered_def pool_made_def
      handlers_def log_def)

subsection \<open>C2: an interrupt while waiting for a completion\<close>

text \<open>
  C2, as far as the code goes. Let Ctrl-C arrive during wait \<open>j\<close>, the \<open>j\<close> completions
  before it having been delivered without error: they are results, and the callback
  returned on each. Nothing is asked of the tasks that complete later or of the callback
  on their results. Then the callback has been called for exactly those \<open>j\<close> results;
  the pool is terminated at once, before anything else; the \<^verbatim>\<open>finally\<close> block enqueues
  the sentinel and closes and joins the pool, the bar is closed, and
  \<^verbatim>\<open>KeyboardInterrupt\<close> reaches the caller. The listener thread is not joined on this
  path: \<^verbatim>\<open>listener.join()\<close> of line 110 stands behind the \<^verbatim>\<open>with\<close> statement and the
  exception passes it by.
\<close>

theorem interrupt_terminates_and_skips_listener_join:
  fixes task :: "'a \<Rightarrow> exn + 'r" and initargs :: "'ia list"
    and tqdm_kwargs :: 'kw and task_initializer :: 'ini
    and use_threads max_workers task_arguments task_finished w
  defines "run \<equiv> exec_progress_pool use_threads max_workers tqdm_kwargs task_initializer
                    (Some initargs) task task_arguments task_finished w"
  assumes interrupt: "sigint w = Some j" and waiting: "j < length task_arguments"
    and earlier: "delivered_ok task_finished
                    (take j (map task (arrival (completion_order w) task_arguments))) 0 = Some k"
  shows "fst run = Raised KeyboardInterrupt
       \<and> trace (snd run) =
           [MakeQueue, MakeThread, ListenerStart, TqdmEnter,
            MakePool (if use_threads then ThreadPool else ProcessPool) max_workers, ImapUnordered]
           @ map TaskFinished
               (map projr (take j (map task (arrival (completion_order w) task_arguments))))
           @ [PoolTerminate, PutNowaitNone, PoolClose, PoolJoin, TqdmExit]
       \<and> pbar_n (snd run) = k
       \<and> ListenerJoin \<notin> set (trace (snd run))"
proof -
  let ?xs = "map task (arrival (completion_order w) task_arguments)"
  have len: "j < length ?xs" using waiting by (simp add: length_arrival)
  have im: "imap_unordered task task_arguments w = take j ?xs @ [Inl KeyboardInterrupt]"
    using len by (simp add: imap_unordered_def interrupt)
  define s0 :: "'r run" where "s0 = log (pool_made use_threads max_workers) [ImapUnordered]"
  define s1 where "s1 = s0\<lparr>trace := trace s0 @ map TaskFinished (map projr (take j ?xs)),
      pbar_n := k\<rparr>"
  have start: "pbar_n s0 = 0" by (simp add: s0_def log_def pool_made_def)
  from earlier have ok: "delivered_ok task_finished (take j ?xs) (pbar_n s0) = Some k"
    by (simp only: start)
  have body: "try_body task task_arguments task_finished w (pool_made use_threads max_workers)
      = (Raise KeyboardInterrupt, s1)"
    unfolding try_body_def im s0_def [symmetric] completion_loop_delivered_ok [OF ok]
    by (simp add: s1_def)
  have run: "run = (Raised KeyboardInterrupt,
      \<lparr>trace = trace s1 @ [PoolTerminate, PutNowaitNone, PoolClose, PoolJoin, TqdmExit],
       pbar_n = pbar_n s1\<rparr>)"
    unfolding run_def exec_progress_pool_Some [OF body] by (simp add: handlers_def log_def)
  have c1: "fst run = Raised KeyboardInterrupt" by (simp add: run)
  have c2: "trace (snd run) =
           [MakeQueue, MakeThread, ListenerStart, TqdmEnter,
            MakePool (if use_threads then ThreadPool else ProcessPool) max_workers, ImapUnordered]
           @ map TaskFinished (map projr (take j ?xs))
           @ [PoolTerminate, PutNowaitNone, PoolClose, PoolJoin, TqdmExit]"
    by (simp add: run s1_def s0_def log_def pool_made_def del: map_map)
  have c3: "pbar_n (snd run) = k" by (simp add: run s1_def)
  have c4: "ListenerJoin \<notin> set (trace (snd run))"
    unfolding c2 by auto
  from c1 c2 c3 c4 show ?thesis by blast
qed

theorem interrupt_terminates_and_skips_listener_join_witness:
  "fst (exec_progress_pool False 4 () () (Some [()])
          (\<lambda>x. if x = 3 then Inl (RuntimeError ''boom'') else Inr (x * x)) [1, 2, 3 :: nat]
          (\<lambda>r k. (if r = 4 then Some TypeError else None, Suc k))
          \<lparr>environ = Map.empty, completion_order = [], sigint = Some 1\<rparr>)
     = Raised KeyboardInterrupt
   \<and> trace (snd (exec_progress_pool False 4 () () (Some [()])
          (\<lambda>x. if x = 3 then Inl (RuntimeError ''boom'') else Inr (x * x)) [1, 2, 3 :: nat]
          (\<lambda>r k. (if r = 4 then Some TypeError else None, Suc k))
          \<lparr>environ = Map.empty, completion_order = [], sigint = Some 1\<rparr>))
     = [MakeQueue, MakeThread, ListenerStart, TqdmEnter, MakePool ProcessPool 4, ImapUnordered,
        TaskFinished 1,
        PoolTerminate, PutNowaitNone, PoolClose, PoolJoin, TqdmExit]
   \<and> pbar_n (snd (exec_progress_pool False 4 () () (Some [()])
          (\<lambda>x. if x = 3 then Inl (RuntimeError ''boom'') else Inr (x * x)) [1, 2, 3 :: nat]
          (\<lambda>r k. (if r = 4 then Some TypeError else None, Suc k))
          \<lparr>environ = Map.empty, completion_order = [], sigint = Some 1\<rparr>)) = 1"
proof -
  have interrupt: "sigint \<lparr>environ = Map.empty, completion_order = [], sigint = Some 1\<rparr> = Some 1"
    by simp
  have waiting: "1 < length [1, 2, 3 :: nat]" by simp
  have earlier: "delivered_ok (\<lambda>r k. (if r = 4 then Some TypeError else None, Suc k))
      (take 1 (map (\<lambda>x. if x = 3 then Inl (RuntimeError ''boom'') else Inr (x * x))
         (arrival (completion_order \<lparr>environ = Map.empty, completion_order = [], sigint = Some 1\<rparr>)
            [1, 2, 3 :: nat]))) 0 = Some 1"
    by simp
  show ?thesis
    using interrupt_terminates_and_skips_listener_join [OF interrupt waiting earlier,
        of False 4 "()" "()" "[()]"]
    by simp
qed

text \<open>
  C2 as stated has the Log Relay joined. With two tasks on a thread pool and the
  interrupt during the second wait, the listener was started and is never joined.
\<close>

theorem interrupt_leaves_listener_unjoined:
  "fst (exec_progress_pool True 2 () () (Some [()]) (\<lambda>x. Inr (x + 1)) [10, 20 :: nat]
          (\<lambda>r k. (None, Suc k))
          \<lparr>environ = Map.empty, completion_order = [], sigint = Some 1\<rparr>)
     = Raised KeyboardInterrupt
   \<and> ListenerStart \<in> set (trace (snd (exec_progress_pool True 2 () () (Some [()])
          (\<lambda>x. Inr (x + 1)) [10, 20 :: nat] (\<lambda>r k. (None, Suc k))
          \<lparr>environ = Map.empty, completion_order = [], sigint = Some 1\<rparr>)))
   \<and> ListenerJoin \<notin> set (trace (snd (exec_progress_pool True 2 () () (Some [()])
          (\<lambda>x. Inr (x + 1)) [10, 20 :: nat] (\<lambda>r k. (None, Suc k))
          \<lparr>environ = Map.empty, completion_order = [], sigint = Some 1\<rparr>)))"
  by (simp add: exec_progress_pool_def try_body_def imap_unordered_def pool_made_def
      handlers_def log_def)

subsection \<open>C3: any other exception\<close>

text \<open>
  C3, as far as the code goes. Let \<open>e\<close> be an instance of \<^verbatim>\<open>Exception\<close> other than
  \<^verbatim>\<open>StopIteration\<close>, and let the task that completes at place \<open>i\<close> raise \<open>e\<close>, or let
  it return a result on which the callback raises \<open>e\<close>; the completions before it were
  delivered without error, and no interrupt came before. Then the callback has been
  called for the results before place \<open>i\<close>, and for the one at place \<open>i\<close> when it is the
  callback that raises; \<open>e\<close> reaches the caller; and the pool is terminated before the
  \<^verbatim>\<open>finally\<close> block runs when \<^verbatim>\<open>PYTEST_CURRENT_TEST\<close> is unset or empty, and only closed
  and joined when it is not empty.
\<close>

theorem exception_terminates_unless_under_pytest:
  fixes task :: "'a \<Rightarrow> exn + 'r" and initargs :: "'ia list"
    and tqdm_kwargs :: 'kw and task_initializer :: 'ini
    and use_threads max_workers task_arguments task_finished w
  defines "run \<equiv> exec_progress_pool use_threads max_workers tqdm_kwargs task_initializer
                    (Some initargs) task task_arguments task_finished w"
    and "order \<equiv> arrival (completion_order w) task_arguments"
  assumes at: "i < length task_arguments"
    and no_interrupt_before: "\<forall>j. sigint w = Some j \<longrightarrow> i < j"
    and earlier: "delivered_ok task_finished (map task (take i order)) 0 = Some k"
    and raised: "task (order ! i) = Inl e
                   \<or> (\<exists>r. task (order ! i) = Inr r \<and> fst (task_finished r k) = Some e)"
    and exception: "isinstance_Exception e" and not_stop: "e \<noteq> StopIteration"
  shows "fst run = Raised e
       \<and> trace (snd run) =
           [MakeQueue, MakeThread, ListenerStart, TqdmEnter,
            MakePool (if use_threads then ThreadPool else ProcessPool) max_workers, ImapUnordered]
           @ map TaskFinished
               (map projr (map task (take i order))
                  @ (case task (order ! i) of Inl e' \<Rightarrow> [] | Inr r \<Rightarrow> [r]))
           @ (if environ_get (environ w) ''PYTEST_CURRENT_TEST'' '''' = ''''
              then [PoolTerminate, PutNowaitNone, PoolClose, PoolJoin, TqdmExit]
              else [PutNowaitNone, PoolClose, PoolJoin, TqdmExit])"
proof -
  let ?pre = "map task (take i order)"
  let ?last = "case task (order ! i) of Inl e' \<Rightarrow> [] | Inr r \<Rightarrow> [r]"
  from imap_unordered_upto [OF at no_interrupt_before, of task]
  obtain rest where im: "imap_unordered task task_arguments w = ?pre @ task (order ! i) # rest"
    unfolding order_def by blast
  define s0 :: "'r run" where "s0 = log (pool_made use_threads max_workers) [ImapUnordered]"
  define s1 where "s1 = s0\<lparr>trace := trace s0 @ map TaskFinished (map projr ?pre), pbar_n := k\<rparr>"
  have start: "pbar_n s0 = 0" by (simp add: s0_def log_def pool_made_def)
  from earlier have ok: "delivered_ok task_finished ?pre (pbar_n s0) = Some k"
    by (simp only: start)
  have loop: "try_body task task_arguments task_finished w (pool_made use_threads max_workers)
      = completion_loop task_finished (task (order ! i) # rest) s1"
    unfolding try_body_def im s0_def [symmetric] completion_loop_delivered_ok [OF ok]
    by (simp add: s1_def)
  have "\<exists>s2. try_body task task_arguments task_finished w (pool_made use_threads max_workers)
          = (Raise e, s2)
        \<and> trace s2 = trace s0 @ map TaskFinished (map projr ?pre @ ?last)"
    using raised
  proof
    assume c: "task (order ! i) = Inl e"
    with not_stop have "completion_loop task_finished (task (order ! i) # rest) s1 = (Raise e, s1)"
      by simp
    with c show ?thesis by (simp add: loop s1_def)
  next
    assume "\<exists>r. task (order ! i) = Inr r \<and> fst (task_finished r k) = Some e"
    then obtain r k' where c: "task (order ! i) = Inr r" and tf: "task_finished r k = (Some e, k')"
      by (metis prod.collapse)
    have "pbar_n s1 = k" by (simp add: s1_def)
    with c tf not_stop have "completion_loop task_finished (task (order ! i) # rest) s1
        = (Raise e, (log s1 [TaskFinished r])\<lparr>pbar_n := k'\<rparr>)"
      by (simp add: Let_def)
    with c show ?thesis by (simp add: loop s1_def log_def)
  qed
  then obtain s2 where body: "try_body task task_arguments task_finished w
        (pool_made use_threads max_workers) = (Raise e, s2)"
    and s2: "trace s2 = trace s0 @ map TaskFinished (map projr ?pre @ ?last)"
    by blast
  from exception have not_interrupt: "e \<noteq> KeyboardInterrupt" by auto
  have run: "run = (Raised e,
      \<lparr>trace = trace (handlers w (Raise e) s2) @ [PutNowaitNone, PoolClose, PoolJoin, TqdmExit],
       pbar_n = pbar_n (handlers w (Raise e) s2)\<rparr>)"
    unfolding run_def exec_progress_pool_Some [OF body] by simp
  have c1: "fst run = Raised e" by (simp add: run)
  have h: "trace (handlers w (Raise e) s2) = trace s2
      @ (if environ_get (environ w) ''PYTEST_CURRENT_TEST'' '''' = '''' then [PoolTerminate] else [])"
    using exception not_interrupt by (simp add: handlers_def log_def)
  have c2: "trace (snd run) =
           [MakeQueue, MakeThread, ListenerStart, TqdmEnter,
            MakePool (if use_threads then ThreadPool else ProcessPool) max_workers, ImapUnordered]
           @ map TaskFinished (map projr ?pre @ ?last)
           @ (if environ_get (environ w) ''PYTEST_CURRENT_TEST'' '''' = ''''
              then [PoolTerminate, PutNowaitNone, PoolClose, PoolJoin, TqdmExit]
              else [PutNowaitNone, PoolClose, PoolJoin, TqdmExit])"
    by (simp add: run h s2 s0_def log_def pool_made_def del: map_map map_append)
  from c1 c2 show ?thesis by blast
qed

theorem exception_terminates_unless_under_pytest_witness:
  "fst (exec_progress_pool False 4 () () (Some [()])
          (\<lambda>x. if x = 2 then Inl (RuntimeError ''boom'') else Inr (x * x)) [1, 2, 3 :: nat]
          (\<lambda>r k. (None, Suc k))
          \<lparr>environ = Map.empty, completion_order = [], sigint = None\<rparr>)
     = Raised (RuntimeError ''boom'')
   \<and> trace (snd (exec_progress_pool False 4 () () (Some [()])
          (\<lambda>x. if x = 2 then Inl (RuntimeError ''boom'') else Inr (x * x)) [1, 2, 3 :: nat]
          (\<lambda>r k. (None, Suc k))
          \<lparr>environ = Map.empty, completion_order = [], sigint = None\<rparr>))
     = [MakeQueue, MakeThread, ListenerStart, TqdmEnter, MakePool ProcessPool 4, ImapUnordered,
        TaskFinished 1, PoolTerminate, PutNowaitNone, PoolClose, PoolJoin, TqdmExit]
   \<and> fst (exec_progress_pool True 2 () () (Some [()]) (\<lambda>x. Inr (x * x)) [1, 2, 3 :: nat]
          (\<lambda>r k. (if r = 4 then Some TypeError else None, Suc k))
          \<lparr>environ = [''PYTEST_CURRENT_TEST'' \<mapsto> ''test_x (call)''], completion_order = [],
           sigint = None\<rparr>)
     = Raised TypeError
   \<and> trace (snd (exec_progress_pool True 2 () () (Some [()]) (\<lambda>x. Inr (x * x)) [1, 2, 3 :: nat]
          (\<lambda>r k. (if r = 4 then Some TypeError else None, Suc k))
          \<lparr>environ = [''PYTEST_CURRENT_TEST'' \<mapsto> ''test_x (call)''], completion_order = [],
           sigint = None\<rparr>))
     = [MakeQueue, MakeThread, ListenerStart, TqdmEnter, MakePool ThreadPool 2, ImapUnordered,
        TaskFinished 1, TaskFinished 4, PutNowaitNone, PoolClose, PoolJoin, TqdmExit]"
proof -
  have task_raises: "fst (exec_progress_pool False 4 () () (Some [()])
          (\<lambda>x. if x = 2 then Inl (RuntimeError ''boom'') else Inr (x * x)) [1, 2, 3 :: nat]
          (\<lambda>r k. (None, Suc k))
          \<lparr>environ = Map.empty, completion_order = [], sigint = None\<rparr>)
     = Raised (RuntimeError ''boom'')
   \<and> trace (snd (exec_progress_pool False 4 () () (Some [()])
          (\<lambda>x. if x = 2 then Inl (RuntimeError ''boom'') else Inr (x * x)) [1, 2, 3 :: nat]
          (\<lambda>r k. (None, Suc k))
          \<lparr>environ = Map.empty, completion_order = [], sigint = None\<rparr>))
     = [MakeQueue, MakeThread, ListenerStart, TqdmEnter, MakePool ProcessPool 4, ImapUnordered,
        TaskFinished 1, PoolTerminate, PutNowaitNone, PoolClose, PoolJoin, TqdmExit]"
    using exception_terminates_unless_under_pytest [where i = 1 and k = 1
        and e = "RuntimeError ''boom''"
        and w = "\<lparr>environ = Map.empty, completion_order = [], sigint = None\<rparr>"
        and task = "\<lambda>x. if x = 2 then Inl (RuntimeError ''boom'') else Inr (x * x)"
        and task_arguments = "[1, 2, 3 :: nat]" and task_finished = "\<lambda>r k. (None, Suc k)"
        and use_threads = False and max_workers = 4
        and tqdm_kwargs = "()" and task_initializer = "()" and initargs = "[()]"]
    by (simp add: environ_get_def)
  have callback_raises: "fst (exec_progress_pool True 2 () () (Some [()]) (\<lambda>x. Inr (x * x))
          [1, 2, 3 :: nat] (\<lambda>r k. (if r = 4 then Some TypeError else None, Suc k))
          \<lparr>environ = [''PYTEST_CURRENT_TEST'' \<mapsto> ''test_x (call)''], completion_order = [],
           sigint = None\<rparr>)
     = Raised TypeError
   \<and> trace (snd (exec_progress_pool True 2 () () (Some [()]) (\<lambda>x. Inr (x * x)) [1, 2, 3 :: nat]
          (\<lambda>r k. (if r = 4 then Some TypeError else None, Suc k))
          \<lparr>environ = [''PYTEST_CURRENT_TEST'' \<mapsto> ''test_x (call)''], completion_order = [],
           sigint = None\<rparr>))
     = [MakeQueue, MakeThread, ListenerStart, TqdmEnter, MakePool ThreadPool 2, ImapUnordered,
        TaskFinished 1, TaskFinished 4, PutNowaitNone, PoolClose, PoolJoin, TqdmExit]"
    using exception_terminates_unless_under_pytest [where i = 1 and k = 1
        and e = TypeError
        and w = "\<lparr>environ = [''PYTEST_CURRENT_TEST'' \<mapsto> ''test_x (call)''],
                 completion_order = [], sigint = None\<rparr>"
        and task = "\<lambda>x. Inr (x * x)"
        and task_arguments = "[1, 2, 3 :: nat]"
        and task_finished = "\<lambda>r k. (if r = 4 then Some TypeError else None, Suc k)"
        and use_threads = True and max_workers = 2
        and tqdm_kwargs = "()" and task_initializer = "()" and initargs = "[()]"]
    by (simp add: environ_get_def)
  from task_raises callback_raises show ?thesis by blast
qed

text \<open>
  C3 as stated covers every exception but the interrupt. \<^verbatim>\<open>SystemExit\<close> raised by the
  callback is not an \<^verbatim>\<open>Exception\<close>: it reaches the caller and the pool is not
  terminated, with \<^verbatim>\<open>PYTEST_CURRENT_TEST\<close> unset. \<^verbatim>\<open>StopIteration\<close> raised by the callback
  ends the loop as the end of the results does: the call returns normally, with one
  result undelivered.
\<close>

theorem SystemExit_and_StopIteration_escape_the_handler:
  "fst (exec_progress_pool False 4 () () (Some [()]) (\<lambda>x. Inr (x * x)) [1, 2, 3 :: nat]
          (\<lambda>r k. (if r = 4 then Some SystemExit else None, Suc k))
          \<lparr>environ = Map.empty, completion_order = [], sigint = None\<rparr>) = Raised SystemExit
   \<and> PoolTerminate \<notin> set (trace (snd (exec_progress_pool False 4 () () (Some [()])
          (\<lambda>x. Inr (x * x)) [1, 2, 3 :: nat]
          (\<lambda>r k. (if r = 4 then Some SystemExit else None, Suc k))
          \<lparr>environ = Map.empty, completion_order = [], sigint = None\<rparr>)))
   \<and> fst (exec_progress_pool False 4 () () (Some [()]) (\<lambda>x. Inr (x * x)) [1, 2, 3 :: nat]
          (\<lambda>r k. (if r = 4 then Some StopIteration else None, Suc k))
          \<lparr>environ = Map.empty, completion_order = [], sigint = None\<rparr>) = Returned
   \<and> delivered (trace (snd (exec_progress_pool False 4 () () (Some [()])
          (\<lambda>x. Inr (x * x)) [1, 2, 3 :: nat]
          (\<lambda>r k. (if r = 4 then Some StopIteration else None, Suc k))
          \<lparr>environ = Map.empty, completion_order = [], sigint = None\<rparr>))) = [1, 4]"
  by (simp add: exec_progress_pool_def try_body_def imap_unordered_def pool_made_def
      handlers_def log_def environ_get_def)

subsection \<open>C4: cleanup on every way out\<close>

text \<open>
  C4 at the call the defaults give: \<open>task_initargs\<close> is \<^verbatim>\<open>None\<close>. The call raises
  \<^verbatim>\<open>TypeError\<close> at line 80, after the listener was started and inside the \<^verbatim>\<open>with\<close>
  statement but before the \<^verbatim>\<open>try\<close>: the bar is closed, and the sentinel is never
  enqueued. For a call that reaches the \<^verbatim>\<open>try\<close>, \<open>cleanup_once_pool_is_made\<close> has the
  cleanup that C4 names.
\<close>

theorem default_initargs_skip_the_sentinel:
  "fst (exec_progress_pool False 4 () () (None :: unit list option) (\<lambda>x. Inr (x * x))
          [1, 2, 3, 4, 5 :: nat] (\<lambda>r k. (None, Suc k))
          \<lparr>environ = Map.empty, completion_order = [], sigint = None\<rparr>) = Raised TypeError
   \<and> trace (snd (exec_progress_pool False 4 () () (None :: unit list option) (\<lambda>x. Inr (x * x))
          [1, 2, 3, 4, 5 :: nat] (\<lambda>r k. (None, Suc k))
          \<lparr>environ = Map.empty, completion_order = [], sigint = None\<rparr>))
     = [MakeQueue, MakeThread, ListenerStart, TqdmEnter, TqdmExit]
   \<and> PutNowaitNone \<notin> set (trace (snd (exec_progress_pool False 4 () () (None :: unit list option)
          (\<lambda>x. Inr (x * x)) [1, 2, 3, 4, 5 :: nat] (\<lambda>r k. (None, Suc k))
          \<lparr>environ = Map.empty, completion_order = [], sigint = None\<rparr>)))"
  by (simp add: exec_progress_pool_def)

subsection \<open>C5: terminating the pool on the way out\<close>

text \<open>
  C5, as far as the code goes. Let the body of the \<^verbatim>\<open>try\<close> raise \<open>e\<close>. If \<open>e\<close> is the
  interrupt, or an \<^verbatim>\<open>Exception\<close> while \<^verbatim>\<open>PYTEST_CURRENT_TEST\<close> is unset or empty, the pool
  is terminated first, right after the last callback; the \<^verbatim>\<open>finally\<close> block then still
  enqueues the sentinel and calls \<^verbatim>\<open>pool.close()\<close> and \<^verbatim>\<open>pool.join()\<close>, on the terminated
  pool. Otherwise the pool is not terminated at all: it is closed and joined. Either
  way the pool is joined and the listener thread is not.
\<close>

theorem abort_terminates_first_then_closes_and_joins:
  fixes task :: "'a \<Rightarrow> exn + 'r" and initargs :: "'ia list"
    and tqdm_kwargs :: 'kw and task_initializer :: 'ini
    and use_threads max_workers task_arguments task_finished w
  defines "run \<equiv> exec_progress_pool use_threads max_workers tqdm_kwargs task_initializer
                    (Some initargs) task task_arguments task_finished w"
  assumes raised: "fst (try_body task task_arguments task_finished w
                          (pool_made use_threads max_workers)) = Raise e"
  shows "(if e = KeyboardInterrupt
             \<or> isinstance_Exception e \<and> environ_get (environ w) ''PYTEST_CURRENT_TEST'' '''' = ''''
          then trace (snd run) =
                 [MakeQueue, MakeThread, ListenerStart, TqdmEnter,
                  MakePool (if use_threads then ThreadPool else ProcessPool) max_workers,
                  ImapUnordered]
                 @ map TaskFinished (delivered (trace (snd run)))
                 @ [PoolTerminate, PutNowaitNone, PoolClose, PoolJoin, TqdmExit]
               \<and> precedes PoolTerminate PoolClose (trace (snd run))
               \<and> precedes PoolTerminate PoolJoin (trace (snd run))
          else trace (snd run) =
                 [MakeQueue, MakeThread, ListenerStart, TqdmEnter,
                  MakePool (if use_threads then ThreadPool else ProcessPool) max_workers,
                  ImapUnordered]
                 @ map TaskFinished (delivered (trace (snd run)))
                 @ [PutNowaitNone, PoolClose, PoolJoin, TqdmExit]
               \<and> PoolTerminate \<notin> set (trace (snd run)))
       \<and> PoolJoin \<in> set (trace (snd run))
       \<and> ListenerJoin \<notin> set (trace (snd run))"
proof -
  let ?rs = "delivered (trace (snd run))"
  let ?pre = "[MakeQueue, MakeThread, ListenerStart, TqdmEnter,
                  MakePool (if use_threads then ThreadPool else ProcessPool) max_workers,
                  ImapUnordered :: 'r event]"
  note tr = exec_progress_pool_on_Raise(2) [OF raised, of tqdm_kwargs task_initializer initargs,
      unfolded run_def [symmetric]]
  show ?thesis
  proof (cases "e = KeyboardInterrupt
             \<or> isinstance_Exception e \<and> environ_get (environ w) ''PYTEST_CURRENT_TEST'' '''' = ''''")
    case True
    with tr have t: "trace (snd run) = ?pre @ map TaskFinished ?rs
        @ [PoolTerminate, PutNowaitNone, PoolClose, PoolJoin, TqdmExit]"
      by simp
    have p1: "precedes PoolTerminate PoolClose (?pre @ map TaskFinished ?rs
        @ [PoolTerminate, PutNowaitNone, PoolClose, PoolJoin, TqdmExit])"
      by (simp add: precedes_TaskFinished)
    have p2: "precedes PoolTerminate PoolJoin (?pre @ map TaskFinished ?rs
        @ [PoolTerminate, PutNowaitNone, PoolClose, PoolJoin, TqdmExit])"
      by (simp add: precedes_TaskFinished)
    have j: "PoolJoin \<in> set (?pre @ map TaskFinished ?rs
        @ [PoolTerminate, PutNowaitNone, PoolClose, PoolJoin, TqdmExit])"
      by simp
    have l: "ListenerJoin \<notin> set (?pre @ map TaskFinished ?rs
        @ [PoolTerminate, PutNowaitNone, PoolClose, PoolJoin, TqdmExit])"
      by auto
    from p1 p2 j l have "precedes PoolTerminate PoolClose (trace (snd run))"
      "precedes PoolTerminate PoolJoin (trace (snd run))"
      "PoolJoin \<in> set (trace (snd run))" "ListenerJoin \<notin> set (trace (snd run))"
      using t by metis+
    with True t show ?thesis by presburger
  next
    case False
    with tr have t: "trace (snd run) = ?pre @ map TaskFinished ?rs
        @ [PutNowaitNone, PoolClose, PoolJoin, TqdmExit]"
      by simp
    have n: "PoolTerminate \<notin> set (?pre @ map TaskFinished ?rs
        @ [PutNowaitNone, PoolClose, PoolJoin, TqdmExit])"
      by auto
    have j: "PoolJoin \<in> set (?pre @ map TaskFinished ?rs
        @ [PutNowaitNone, PoolClose, PoolJoin, TqdmExit])"
      by simp
    have l: "ListenerJoin \<notin> set (?pre @ map TaskFinished ?rs
        @ [PutNowaitNone, PoolClose, PoolJoin, TqdmExit])"
      by auto
    from n j l have "PoolTerminate \<notin> set (trace (snd run))"
      "PoolJoin \<in> set (trace (snd run))" "ListenerJoin \<notin> set (trace (snd run))"
      using t by metis+
    with False t show ?thesis by presburger
  qed
qed

theorem abort_terminates_first_then_closes_and_joins_witness:
  "precedes PoolTerminate PoolJoin
     (trace (snd (exec_progress_pool False 4 () () (Some [()]) (\<lambda>x. Inr (x * x)) [1, 2, 3 :: nat]
        (\<lambda>r k. (None, Suc k))
        \<lparr>environ = Map.empty, completion_order = [2], sigint = Some 1\<rparr>)))
   \<and> PoolJoin \<in> set
     (trace (snd (exec_progress_pool False 4 () () (Some [()]) (\<lambda>x. Inr (x * x)) [1, 2, 3 :: nat]
        (\<lambda>r k. (None, Suc k))
        \<lparr>environ = Map.empty, completion_order = [2], sigint = Some 1\<rparr>)))
   \<and> ListenerJoin \<notin> set
     (trace (snd (exec_progress_pool False 4 () () (Some [()]) (\<lambda>x. Inr (x * x)) [1, 2, 3 :: nat]
        (\<lambda>r k. (None, Suc k))
        \<lparr>environ = Map.empty, completion_order = [2], sigint = Some 1\<rparr>)))"
proof -
  have raised: "fst (try_body (\<lambda>x. Inr (x * x)) [1, 2, 3 :: nat] (\<lambda>r k. (None, Suc k))
      \<lparr>environ = Map.empty, completion_order = [2], sigint = Some 1\<rparr> (pool_made False 4))
      = Raise KeyboardInterrupt"
    by (simp add: try_body_def imap_unordered_def pool_made_def log_def)
  show ?thesis
    using abort_terminates_first_then_closes_and_joins [OF raised, of "()" "()" "[()]"]
    by simp
qed

text \<open>
  C5 as stated has the pool terminated, with no join, on every error path. With
  \<^verbatim>\<open>PYTEST_CURRENT_TEST\<close> set, a failing task leaves the pool unterminated, closed and
  joined; with it unset the pool is terminated and \<^verbatim>\<open>pool.join()\<close> is called all the same.
\<close>

theorem pytest_mode_joins_without_terminate:
  "fst (exec_progress_pool False 4 () () (Some [()])
          (\<lambda>x. if x = 2 then Inl (RuntimeError ''boom'') else Inr (x * x)) [1, 2, 3 :: nat]
          (\<lambda>r k. (None, Suc k))
          \<lparr>environ = [''PYTEST_CURRENT_TEST'' \<mapsto> ''test_x (call)''], completion_order = [],
           sigint = None\<rparr>) = Raised (RuntimeError ''boom'')
   \<and> trace (snd (exec_progress_pool False 4 () () (Some [()])
          (\<lambda>x. if x = 2 then Inl (RuntimeError ''boom'') else Inr (x * x)) [1, 2, 3 :: nat]
          (\<lambda>r k. (None, Suc k))
          \<lparr>environ = [''PYTEST_CURRENT_TEST'' \<mapsto> ''test_x (call)''], completion_order = [],
           sigint = None\<rparr>))
     = [MakeQueue, MakeThread, ListenerStart, TqdmEnter, MakePool ProcessPool 4, ImapUnordered,
        TaskFinished 1, PutNowaitNone, PoolClose, PoolJoin, TqdmExit]
   \<and> trace (snd (exec_progress_pool False 4 () () (Some [()])
          (\<lambda>x. if x = 2 then Inl (RuntimeError ''boom'') else Inr (x * x)) [1, 2, 3 :: nat]
          (\<lambda>r k. (None, Suc k))
          \<lparr>environ = Map.empty, completion_order = [], sigint = None\<rparr>))
     = [MakeQueue, MakeThread, ListenerStart, TqdmEnter, MakePool ProcessPool 4, ImapUnordered,
        TaskFinished 1, PoolTerminate, PutNowaitNone, PoolClose, PoolJoin, TqdmExit]"
  by (simp add: exec_progress_pool_def try_body_def imap_unordered_def pool_made_def
      handlers_def log_def environ_get_def)

subsection \<open>C6: the listener's loop\<close>

text \<open>
  C6, as far as the code goes. With nothing in the queue the listener waits; at the
  sentinel it leaves the loop, whatever stands behind the sentinel staying in the queue;
  a record is handed to the logger looked up by the record's name, and when the logger
  returns the loop goes on. When the loggers raise nothing but instances of
  \<^verbatim>\<open>Exception\<close>, the records handled are exactly the records before the first sentinel,
  each once and in their order, and nothing behind the sentinel is handled.
\<close>

theorem log_listener_dispatches_up_to_sentinel:
  "log_listener getLogger [] s = (Waiting, s)
   \<and> log_listener getLogger (PyNone # queue) s = (Exited queue, s)
   \<and> (getLogger (name r) r = None \<longrightarrow>
        log_listener getLogger (LogRecord r # queue) s =
          log_listener getLogger queue (s\<lparr>handled := handled s @ [(name r, r)]\<rparr>))
   \<and> ((\<forall>nm x e. getLogger nm x = Some e \<longrightarrow> isinstance_Exception e) \<longrightarrow>
        handled (snd (log_listener getLogger queue s)) =
          handled s @ map (\<lambda>r. (name r, r)) (records (takeWhile (\<lambda>x. x \<noteq> PyNone) queue))
      \<and> fst (log_listener getLogger queue s) =
          (case dropWhile (\<lambda>x. x \<noteq> PyNone) queue of
             [] \<Rightarrow> Waiting
           | x # behind \<Rightarrow> Exited behind))"
proof -
  have step: "getLogger (name r) r = None \<longrightarrow>
        log_listener getLogger (LogRecord r # queue) s =
          log_listener getLogger queue (s\<lparr>handled := handled s @ [(name r, r)]\<rparr>)"
    by (simp add: Let_def)
  have run: "(\<forall>nm x e. getLogger nm x = Some e \<longrightarrow> isinstance_Exception e) \<longrightarrow>
        handled (snd (log_listener getLogger queue s)) =
          handled s @ map (\<lambda>r. (name r, r)) (records (takeWhile (\<lambda>x. x \<noteq> PyNone) queue))
      \<and> fst (log_listener getLogger queue s) =
          (case dropWhile (\<lambda>x. x \<noteq> PyNone) queue of
             [] \<Rightarrow> Waiting
           | x # behind \<Rightarrow> Exited behind)"
    using log_listener_run [of getLogger queue s] by blast
  from step run show ?thesis by simp
qed

theorem log_listener_dispatches_up_to_sentinel_witness:
  "handled (snd (log_listener (\<lambda>nm r. if msg r = ''bad'' then Some TypeError else None)
      [LogRecord \<lparr>name = ''ocrmypdf'', levelno = 20, msg = ''page 1''\<rparr>,
       PyObject ''not a record'',
       LogRecord \<lparr>name = ''ocrmypdf.exec'', levelno = 30, msg = ''bad''\<rparr>,
       PyNone,
       LogRecord \<lparr>name = ''late'', levelno = 20, msg = ''page 2''\<rparr>]
      \<lparr>handled = [], stderr = []\<rparr>))
    = [(''ocrmypdf'', \<lparr>name = ''ocrmypdf'', levelno = 20, msg = ''page 1''\<rparr>),
       (''ocrmypdf.exec'', \<lparr>name = ''ocrmypdf.exec'', levelno = 30, msg = ''bad''\<rparr>)]
   \<and> fst (log_listener (\<lambda>nm r. if msg r = ''bad'' then Some TypeError else None)
      [LogRecord \<lparr>name = ''ocrmypdf'', levelno = 20, msg = ''page 1''\<rparr>,
       PyObject ''not a record'',
       LogRecord \<lparr>name = ''ocrmypdf.exec'', levelno = 30, msg = ''bad''\<rparr>,
       PyNone,
       LogRecord \<lparr>name = ''late'', levelno = 20, msg = ''page 2''\<rparr>]
      \<lparr>handled = [], stderr = []\<rparr>)
    = Exited [LogRecord \<lparr>name = ''late'', levelno = 20, msg = ''page 2''\<rparr>]"
proof -
  have errors: "\<forall>nm x e. (if msg x = ''bad'' then Some TypeError else None) = Some e
      \<longrightarrow> isinstance_Exception e"
    by auto
  show ?thesis
    using errors log_listener_dispatches_up_to_sentinel [
        where getLogger = "\<lambda>nm r. if msg r = ''bad'' then Some TypeError else None"
        and s = "\<lparr>handled = [], stderr = []\<rparr>"
        and r = "\<lparr>name = ''ocrmypdf'', levelno = 20, msg = ''page 1''\<rparr>" and queue =
        "[LogRecord \<lparr>name = ''ocrmypdf'', levelno = 20, msg = ''page 1''\<rparr>,
          PyObject ''not a record'',
          LogRecord \<lparr>name = ''ocrmypdf.exec'', levelno = 30, msg = ''bad''\<rparr>,
          PyNone,
          LogRecord \<lparr>name = ''late'', levelno = 20, msg = ''page 2''\<rparr>]"]
    by simp
qed

text \<open>
  C6 as stated has every record before the sentinel dispatched, whatever the loggers
  do. \<^verbatim>\<open>SystemExit\<close> raised by a logger is not caught at line 49: it ends the listener's
  thread, and the record behind it, still before the sentinel, is never handled.
\<close>

theorem SystemExit_from_a_logger_ends_the_listener:
  "log_listener (\<lambda>nm r. if msg r = ''exit'' then Some SystemExit else None)
      [LogRecord \<lparr>name = ''ocrmypdf'', levelno = 20, msg = ''exit''\<rparr>,
       LogRecord \<lparr>name = ''ocrmypdf'', levelno = 20, msg = ''page 2''\<rparr>,
       PyNone]
      \<lparr>handled = [], stderr = []\<rparr>
    = (Died SystemExit,
       \<lparr>handled = [(''ocrmypdf'', \<lparr>name = ''ocrmypdf'', levelno = 20, msg = ''exit''\<rparr>)],
        stderr = []\<rparr>)"
  by (simp add: Let_def)

subsection \<open>C7: a record that cannot be handled\<close>

text \<open>
  C7. Let handling record \<open>r\<close> raise the error \<open>e\<close>, with no sentinel before \<open>r\<close> in the
  queue. Then the listener writes \<^verbatim>\<open>Logging problem\<close> and the traceback of \<open>e\<close> to the
  error stream and goes on with the messages behind \<open>r\<close>: it is not ended by an
  exception, it leaves the loop only at a sentinel behind \<open>r\<close>, and the records behind
  \<open>r\<close>, up to that sentinel, are handled like those before it.
\<close>

theorem log_listener_survives_bad_record:
  assumes errors: "\<forall>nm x e. getLogger nm x = Some e \<longrightarrow> isinstance_Exception e"
    and bad: "getLogger (name r) r = Some e"
    and before: "PyNone \<notin> set pre"
  shows "log_listener getLogger (pre @ LogRecord r # post) s =
           log_listener getLogger post
             ((snd (log_listener getLogger pre s))
                \<lparr>handled := handled (snd (log_listener getLogger pre s)) @ [(name r, r)],
                 stderr := stderr (snd (log_listener getLogger pre s))
                            @ [Print ''Logging problem'', PrintExc e]\<rparr>)
       \<and> (\<forall>e'. fst (log_listener getLogger (pre @ LogRecord r # post) s) \<noteq> Died e')
       \<and> fst (log_listener getLogger (pre @ LogRecord r # post) s) =
           (case dropWhile (\<lambda>x. x \<noteq> PyNone) post of
              [] \<Rightarrow> Waiting
            | x # behind \<Rightarrow> Exited behind)
       \<and> handled (snd (log_listener getLogger (pre @ LogRecord r # post) s)) =
           handled s @ map (\<lambda>r. (name r, r)) (records pre) @ (name r, r)
             # map (\<lambda>r. (name r, r)) (records (takeWhile (\<lambda>x. x \<noteq> PyNone) post))"
proof -
  let ?s1 = "snd (log_listener getLogger pre s)"
  let ?s2 = "?s1\<lparr>handled := handled ?s1 @ [(name r, r)],
                 stderr := stderr ?s1 @ [Print ''Logging problem'', PrintExc e]\<rparr>"
  from errors bad have exc: "isinstance_Exception e" by blast
  have step: "log_listener getLogger (LogRecord r # post) ?s1 = log_listener getLogger post ?s2"
    using bad exc by (simp add: Let_def)
  have c1: "log_listener getLogger (pre @ LogRecord r # post) s = log_listener getLogger post ?s2"
    unfolding log_listener_prefix [OF errors before] by (rule step)
  note run = log_listener_run [OF errors]
  have c3: "fst (log_listener getLogger (pre @ LogRecord r # post) s) =
           (case dropWhile (\<lambda>x. x \<noteq> PyNone) post of
              [] \<Rightarrow> Waiting
            | x # behind \<Rightarrow> Exited behind)"
    unfolding c1 using run [of post ?s2] by blast
  then have c2: "\<forall>e'. fst (log_listener getLogger (pre @ LogRecord r # post) s) \<noteq> Died e'"
    by (simp split: list.splits)
  have tw: "takeWhile (\<lambda>x. x \<noteq> PyNone) pre = pre"
    using before by (auto simp: takeWhile_eq_all_conv)
  have h1: "handled ?s1 = handled s @ map (\<lambda>r. (name r, r)) (records pre)"
    using run [of pre s] by (simp add: tw)
  have c4: "handled (snd (log_listener getLogger (pre @ LogRecord r # post) s)) =
           handled s @ map (\<lambda>r. (name r, r)) (records pre) @ (name r, r)
             # map (\<lambda>r. (name r, r)) (records (takeWhile (\<lambda>x. x \<noteq> PyNone) post))"
    unfolding c1 using run [of post ?s2] by (simp add: h1)
  from c1 c2 c3 c4 show ?thesis by blast
qed

theorem log_listener_survives_bad_record_witness:
  "log_listener (\<lambda>nm r. if msg r = ''bad'' then Some TypeError else None)
      ([LogRecord \<lparr>name = ''a'', levelno = 20, msg = ''page 1''\<rparr>]
        @ LogRecord \<lparr>name = ''b'', levelno = 30, msg = ''bad''\<rparr>
        # [LogRecord \<lparr>name = ''c'', levelno = 20, msg = ''page 2''\<rparr>, PyNone])
      \<lparr>handled = [], stderr = []\<rparr>
    = (Exited [],
       \<lparr>handled = [(''a'', \<lparr>name = ''a'', levelno = 20, msg = ''page 1''\<rparr>),
                   (''b'', \<lparr>name = ''b'', levelno = 30, msg = ''bad''\<rparr>),
                   (''c'', \<lparr>name = ''c'', levelno = 20, msg = ''page 2''\<rparr>)],
        stderr = [Print ''Logging problem'', PrintExc TypeError]\<rparr>)"
proof -
  have errors: "\<forall>nm x e. (if msg x = ''bad'' then Some TypeError else None) = Some e
      \<longrightarrow> isinstance_Exception e"
    by auto
  have bad: "(if msg \<lparr>name = ''b'', levelno = 30, msg = ''bad''\<rparr> = ''bad'' then Some TypeError else None)
      = Some TypeError"
    by simp
  have before: "PyNone \<notin> set [LogRecord \<lparr>name = ''a'', levelno = 20, msg = ''page 1''\<rparr>]"
    by simp
  show ?thesis
    using log_listener_survives_bad_record [of "\<lambda>nm r. if msg r = ''bad'' then Some TypeError else None",
        OF errors bad before,
        where post = "[LogRecord \<lparr>name = ''c'', levelno = 20, msg = ''page 2''\<rparr>, PyNone]"
        and s = "\<lparr>handled = [], stderr = []\<rparr>"]
    by (simp add: Let_def)
qed

subsection \<open>C8: the order of the lifecycle\<close>

text \<open>
  C8. In every run, whatever the arguments: the listener thread is made before it is
  started and started before the pool is made; the bar is opened before the pool is
  made; the listener is joined only after \<^verbatim>\<open>pool.close()\<close> and \<^verbatim>\<open>pool.join()\<close>, and, once
  the pool is made, never before them. A call that returns normally has made the pool
  and joined the listener.
\<close>

theorem lifecycle_order:
  fixes task :: "'a \<Rightarrow> exn + 'r" and task_initargs :: "'ia list option"
    and tqdm_kwargs :: 'kw and task_initializer :: 'ini
    and use_threads max_workers task_arguments task_finished w
  defines "run \<equiv> exec_progress_pool use_threads max_workers tqdm_kwargs task_initializer
                    task_initargs task task_arguments task_finished w"
  shows "precedes MakeThread ListenerStart (trace (snd run))
       \<and> (\<forall>pc n. precedes ListenerStart (MakePool pc n) (trace (snd run)))
       \<and> (\<forall>pc n. precedes TqdmEnter (MakePool pc n) (trace (snd run)))
       \<and> precedes PoolClose ListenerJoin (trace (snd run))
       \<and> precedes PoolJoin ListenerJoin (trace (snd run))
       \<and> (task_initargs \<noteq> None \<longrightarrow>
            \<not> precedes ListenerJoin PoolClose (trace (snd run))
          \<and> \<not> precedes ListenerJoin PoolJoin (trace (snd run)))
       \<and> (fst run = Returned \<longrightarrow>
            ListenerJoin \<in> set (trace (snd run))
          \<and> MakePool (if use_threads then ThreadPool else ProcessPool) max_workers
              \<in> set (trace (snd run)))"
proof (cases task_initargs)
  case None
  then have "run = (Raised TypeError,
      \<lparr>trace = [MakeQueue, MakeThread, ListenerStart, TqdmEnter, TqdmExit], pbar_n = 0\<rparr>)"
    by (simp add: run_def exec_progress_pool_def)
  with None show ?thesis by simp
next
  case (Some initargs)
  then have run: "run = exec_progress_pool use_threads max_workers tqdm_kwargs task_initializer
                    (Some initargs) task task_arguments task_finished w"
    by (simp add: run_def)
  show ?thesis
  proof (cases rule: run_trace_cases [of use_threads max_workers tqdm_kwargs task_initializer
        initargs task task_arguments task_finished w])
    case (1 rs)
    then show ?thesis unfolding run [symmetric] using Some
      by (simp add: precedes_TaskFinished)
  next
    case (2 rs e)
    then show ?thesis unfolding run [symmetric] using Some
      by (simp add: precedes_TaskFinished)
  next
    case (3 rs e)
    then show ?thesis unfolding run [symmetric] using Some
      by (simp add: precedes_TaskFinished)
  qed
qed

theorem lifecycle_order_witness:
  "precedes PoolJoin ListenerJoin
     (trace (snd (exec_progress_pool True 2 () () (Some [()]) (\<lambda>x. Inr (x + 1)) [10, 20 :: nat]
        (\<lambda>r k. (None, Suc k)) \<lparr>environ = Map.empty, completion_order = [1], sigint = None\<rparr>)))
   \<and> \<not> precedes ListenerJoin PoolJoin
     (trace (snd (exec_progress_pool True 2 () () (Some [()]) (\<lambda>x. Inr (x + 1)) [10, 20 :: nat]
        (\<lambda>r k. (None, Suc k)) \<lparr>environ = Map.empty, completion_order = [1], sigint = None\<rparr>)))
   \<and> ListenerJoin \<in> set
     (trace (snd (exec_progress_pool True 2 () () (Some [()]) (\<lambda>x. Inr (x + 1)) [10, 20 :: nat]
        (\<lambda>r k. (None, Suc k)) \<lparr>environ = Map.empty, completion_order = [1], sigint = None\<rparr>)))
   \<and> MakePool ThreadPool 2 \<in> set
     (trace (snd (exec_progress_pool True 2 () () (Some [()]) (\<lambda>x. Inr (x + 1)) [10, 20 :: nat]
        (\<lambda>r k. (None, Suc k)) \<lparr>environ = Map.empty, completion_order = [1], sigint = None\<rparr>)))"
proof -
  have returned: "fst (exec_progress_pool True 2 () () (Some [()]) (\<lambda>x. Inr (x + 1)) [10, 20 :: nat]
        (\<lambda>r k. (None, Suc k)) \<lparr>environ = Map.empty, completion_order = [1], sigint = None\<rparr>)
      = Returned"
    by (simp add: exec_progress_pool_def try_body_def imap_unordered_def pool_made_def
      handlers_def log_def)
  show ?thesis
    using returned lifecycle_order [where use_threads = True and max_workers = 2
        and tqdm_kwargs = "()" and task_initializer = "()" and task_initargs = "Some [()]"
        and task = "\<lambda>x. Inr (x + 1)" and task_arguments = "[10, 20 :: nat]"
        and task_finished = "\<lambda>r k. (None, Suc k)"
        and w = "\<lparr>environ = Map.empty, completion_order = [1], sigint = None\<rparr>"]
    by simp
qed

subsection \<open>C10: the default \<open>task_initargs\<close>\<close>

text \<open>
  C10. With \<open>task_initargs\<close> at its default \<^verbatim>\<open>None\<close>, every call raises \<^verbatim>\<open>TypeError\<close>
  before the pool is made and before \<^verbatim>\<open>imap_unordered\<close> submits a task; with a sequence,
  the empty one included, the pool is made and the tasks are submitted.
\<close>

theorem None_initargs_raise_TypeError:
  fixes task :: "'a \<Rightarrow> exn + 'r" and initargs :: "'ia list"
    and tqdm_kwargs :: 'kw and task_initializer :: 'ini
  shows "exec_progress_pool use_threads max_workers tqdm_kwargs task_initializer
           (None :: 'ia list option) task task_arguments task_finished w
         = (Raised TypeError,
            \<lparr>trace = [MakeQueue, MakeThread, ListenerStart, TqdmEnter, TqdmExit], pbar_n = 0\<rparr>)
       \<and> ImapUnordered \<notin> set (trace (snd (exec_progress_pool use_threads max_workers tqdm_kwargs
           task_initializer (None :: 'ia list option) task task_arguments task_finished w)))
       \<and> MakePool (if use_threads then ThreadPool else ProcessPool) max_workers
           \<in> set (trace (snd (exec_progress_pool use_threads max_workers tqdm_kwargs
               task_initializer (Some initargs) task task_arguments task_finished w)))
       \<and> ImapUnordered \<in> set (trace (snd (exec_progress_pool use_threads max_workers tqdm_kwargs
               task_initializer (Some initargs) task task_arguments task_finished w)))"
proof -
  have none: "exec_progress_pool use_threads max_workers tqdm_kwargs task_initializer
           (None :: 'ia list option) task task_arguments task_finished w
         = (Raised TypeError,
            \<lparr>trace = [MakeQueue, MakeThread, ListenerStart, TqdmEnter, TqdmExit], pbar_n = 0\<rparr>)"
    by (simp add: exec_progress_pool_def)
  have some: "MakePool (if use_threads then ThreadPool else ProcessPool) max_workers
           \<in> set (trace (snd (exec_progress_pool use_threads max_workers tqdm_kwargs
               task_initializer (Some initargs) task task_arguments task_finished w)))
       \<and> ImapUnordered \<in> set (trace (snd (exec_progress_pool use_threads max_workers tqdm_kwargs
               task_initializer (Some initargs) task task_arguments task_finished w)))"
    by (cases rule: run_trace_cases [of use_threads max_workers tqdm_kwargs task_initializer
        initargs task task_arguments task_finished w]) simp_all
  from none some show ?thesis by simp
qed

end
